theory Spec2Isabelle
  imports Main "HOL-Library.Word"
begin

section \<open>Strings\<close>

text \<open>
  Go strings are byte strings; \<open>string\<close> (a list of 8-bit \<open>char\<close>) models them.
  \<open>strings.ToLower\<close> belongs to the Go standard library. The model is its ASCII path:
  a byte in \<open>'A'..'Z'\<close> is moved by \<open>'a' - 'A' = 32\<close>, every other byte is kept.
  On names made of ASCII bytes this is what the library computes; the library also
  folds the letters of Unicode beyond ASCII, which the model leaves as they are.
\<close>

definition toLowerByte :: "char \<Rightarrow> char" where
  "toLowerByte c =
     (let n = (of_char c :: nat) in if 65 \<le> n \<and> n \<le> 90 then char_of (n + 32) else c)"

definition ToLower :: "string \<Rightarrow> string" where
  "ToLower s = map toLowerByte s"

text \<open>
  Two names are case variants of each other when they have the same length and agree
  byte by byte up to the case of ASCII letters.
\<close>

definition isUpper :: "char \<Rightarrow> bool" where
  "isUpper c = (65 \<le> (of_char c :: nat) \<and> (of_char c :: nat) \<le> 90)"

definition sameLetter :: "char \<Rightarrow> char \<Rightarrow> bool" where
  "sameLetter c d =
     (c = d \<or> (isUpper c \<and> (of_char d :: nat) = of_char c + 32)
            \<or> (isUpper d \<and> (of_char c :: nat) = of_char d + 32))"

definition caseVariant :: "string \<Rightarrow> string \<Rightarrow> bool" where
  "caseVariant s t = list_all2 sameLetter s t"


section \<open>Package balancer: the registry\<close>

text \<open>
  \<open>Builder\<close> is an interface with the methods \<open>Build\<close> and \<open>Name\<close>; a builder may
  also implement \<open>ConfigParser\<close>, whose only method is \<open>ParseConfig\<close>. A value of the
  interface is the record of its methods: \<open>builder_Build\<close> is opaque (type \<open>'bld\<close>),
  \<open>builder_ParseConfig\<close> is \<open>None\<close> when the type assertion
  \<open>builder.(balancer.ConfigParser)\<close> fails. \<open>ParseConfig\<close> returns either an error
  (its message) or a parsed configuration of the opaque interface type
  \<open>serviceconfig.LoadBalancingConfig\<close> (type \<open>'cfg\<close>, nil included).
\<close>

type_synonym RawMessage = string

record ('bld, 'cfg) Builder =
  builder_Build :: 'bld
  builder_Name :: string
  builder_ParseConfig :: "(RawMessage \<Rightarrow> string + 'cfg) option"

text \<open>The package variable \<open>m\<close>, a map from name to builder, is passed explicitly.\<close>

type_synonym ('bld, 'cfg) balancer_m = "string \<rightharpoonup> ('bld, 'cfg) Builder"

definition balancer_Register ::
  "('bld, 'cfg) balancer_m \<Rightarrow> ('bld, 'cfg) Builder \<Rightarrow> ('bld, 'cfg) balancer_m" where
  "balancer_Register m b = m(ToLower (builder_Name b) \<mapsto> b)"

definition unregisterForTesting ::
  "('bld, 'cfg) balancer_m \<Rightarrow> string \<Rightarrow> ('bld, 'cfg) balancer_m" where
  "unregisterForTesting m name = m(name := None)"

text \<open>\<open>Get\<close> returns nil (\<open>None\<close>) when no builder is registered under the name.\<close>

definition balancer_Get ::
  "('bld, 'cfg) balancer_m \<Rightarrow> string \<Rightarrow> ('bld, 'cfg) Builder option" where
  "balancer_Get m name = (case m (ToLower name) of Some b \<Rightarrow> Some b | None \<Rightarrow> None)"


section \<open>Package resolver: the registry\<close>

record 'bld resolver_Builder =
  resolver_Build :: 'bld
  Scheme :: string

type_synonym 'bld resolver_m = "string \<rightharpoonup> 'bld resolver_Builder"

definition resolver_Register ::
  "'bld resolver_m \<Rightarrow> 'bld resolver_Builder \<Rightarrow> 'bld resolver_m" where
  "resolver_Register m b = m(Scheme b \<mapsto> b)"

definition resolver_Get :: "'bld resolver_m \<Rightarrow> string \<Rightarrow> 'bld resolver_Builder option" where
  "resolver_Get m scheme = (case m scheme of Some b \<Rightarrow> Some b | None \<Rightarrow> None)"

definition UnregisterForTesting :: "'bld resolver_m \<Rightarrow> string \<Rightarrow> 'bld resolver_m" where
  "UnregisterForTesting m scheme = m(scheme := None)"


section \<open>Package balancer: the connectivity state evaluator\<close>

text \<open>
  Modelled from the spec: the type \<open>connectivity.State\<close>, whose package is not
  among the sources. It is the enumeration of the five connectivity states the
  specification lists: Idle, Connecting, Ready, TransientFailure and Shutdown.
\<close>

datatype connectivity_State = Idle | Connecting | Ready | TransientFailure | Shutdown

record ConnectivityStateEvaluator =
  numReady :: "64 word"
  numConnecting :: "64 word"

text \<open>
  \<open>updateVal := 2*uint64(idx) - 1\<close>: at index 0 this is \<open>0 - 1\<close> in \<open>uint64\<close>, that is
  \<open>2^64 - 1\<close>, and adding it subtracts one modulo \<open>2^64\<close>; at index 1 it is 1.
\<close>

definition updateVal :: "nat \<Rightarrow> 64 word" where
  "updateVal idx = 2 * of_nat idx - 1"

text \<open>The body of the loop over \<open>[oldState, newState]\<close>: the \<open>switch\<close> on the state.\<close>

fun updateCounter ::
  "ConnectivityStateEvaluator \<Rightarrow> nat \<times> connectivity_State \<Rightarrow> ConnectivityStateEvaluator" where
  "updateCounter cse (idx, state) =
     (case state of
        Ready \<Rightarrow> cse\<lparr>numReady := numReady cse + updateVal idx\<rparr>
      | Connecting \<Rightarrow> cse\<lparr>numConnecting := numConnecting cse + updateVal idx\<rparr>
      | _ \<Rightarrow> cse)"

text \<open>\<open>RecordTransition\<close> returns the updated receiver and the aggregated state.\<close>

definition RecordTransition ::
  "ConnectivityStateEvaluator \<Rightarrow> connectivity_State \<Rightarrow> connectivity_State
     \<Rightarrow> ConnectivityStateEvaluator \<times> connectivity_State" where
  "RecordTransition cse oldState newState =
     (let cse' = foldl updateCounter cse (enumerate 0 [oldState, newState])
      in (cse',
          if numReady cse' > 0 then Ready
          else if numConnecting cse' > 0 then Connecting
          else TransientFailure))"

text \<open>A fresh evaluator is the zero value of the struct.\<close>

definition zeroEvaluator :: ConnectivityStateEvaluator where
  "zeroEvaluator = \<lparr>numReady = 0, numConnecting = 0\<rparr>"

text \<open>
  A sequence of \<open>RecordTransition\<close> calls on one evaluator: the final evaluator and
  the values the calls returned, in order.
\<close>

fun recordAll ::
  "ConnectivityStateEvaluator \<Rightarrow> (connectivity_State \<times> connectivity_State) list
     \<Rightarrow> ConnectivityStateEvaluator \<times> connectivity_State list" where
  "recordAll cse [] = (cse, [])"
| "recordAll cse ((oldState, newState) # ts) =
     (case RecordTransition cse oldState newState of
        (cse', r) \<Rightarrow> (case recordAll cse' ts of (cse'', rs) \<Rightarrow> (cse'', r # rs)))"


section \<open>SubConn state histories\<close>

text \<open>
  Modelled from the spec: the SubConn state machine of section 4.3, which the connection
  engine implements and these sources only describe (\<open>All SubConns start in IDLE\<close>).
  Idle goes to Connecting; Connecting to Ready or TransientFailure; TransientFailure
  back to Connecting; Ready to Idle, Connecting or TransientFailure; every state but
  Shutdown goes to Shutdown, which is terminal.
\<close>

fun subconn_step :: "connectivity_State \<Rightarrow> connectivity_State \<Rightarrow> bool" where
  "subconn_step Shutdown _ = False"
| "subconn_step _ Shutdown = True"
| "subconn_step Idle Connecting = True"
| "subconn_step Connecting Ready = True"
| "subconn_step Connecting TransientFailure = True"
| "subconn_step TransientFailure Connecting = True"
| "subconn_step Ready Idle = True"
| "subconn_step Ready Connecting = True"
| "subconn_step Ready TransientFailure = True"
| "subconn_step _ _ = False"

text \<open>
  A history is the list of observed transitions, each recorded once and in order:
  the SubConn, the state it left and the state it entered. It is valid from the
  states \<open>st\<close> when every transition leaves the state its SubConn is in and follows
  an edge of the state machine. \<open>states_after\<close> gives the state of every SubConn at
  the end. In a valid history every SubConn starts in Idle.
\<close>

type_synonym 'sc transition = "'sc \<times> connectivity_State \<times> connectivity_State"

fun valid_history_from ::
  "('sc \<Rightarrow> connectivity_State) \<Rightarrow> 'sc transition list \<Rightarrow> bool" where
  "valid_history_from st [] = True"
| "valid_history_from st ((sc, oldState, newState) # ts) =
     (st sc = oldState \<and> subconn_step oldState newState
      \<and> valid_history_from (st(sc := newState)) ts)"

fun states_after ::
  "('sc \<Rightarrow> connectivity_State) \<Rightarrow> 'sc transition list \<Rightarrow> ('sc \<Rightarrow> connectivity_State)" where
  "states_after st [] = st"
| "states_after st ((sc, oldState, newState) # ts) = states_after (st(sc := newState)) ts"

definition valid_history :: "'sc transition list \<Rightarrow> bool" where
  "valid_history h = valid_history_from (\<lambda>_. Idle) h"

definition current_state :: "'sc transition list \<Rightarrow> 'sc \<Rightarrow> connectivity_State" where
  "current_state h = states_after (\<lambda>_. Idle) h"

definition tracked :: "'sc transition list \<Rightarrow> 'sc set" where
  "tracked h = fst ` set h"

text \<open>
  The counters agree with the states \<open>st\<close> when each holds, modulo \<open>2^64\<close>, the number
  of SubConns in its state.
\<close>

definition counts_agree ::
  "('sc \<Rightarrow> connectivity_State) \<Rightarrow> ConnectivityStateEvaluator \<Rightarrow> bool" where
  "counts_agree st cse =
     (finite {sc. st sc = Ready} \<and> finite {sc. st sc = Connecting}
      \<and> numReady cse = of_nat (card {sc. st sc = Ready})
      \<and> numConnecting cse = of_nat (card {sc. st sc = Connecting}))"


section \<open>Package serviceconfig: BalancerConfig\<close>

record 'cfg BalancerConfig =
  Name :: string
  Config :: 'cfg

text \<open>
  \<open>intermediateBalancerConfig\<close> is \<open>[]map[string]json.RawMessage\<close>. An entry is the
  list of the key/value pairs of its map (the decoder keeps one value for a key, so
  the keys are distinct), and \<open>len\<close> of the map is the length of that list.
\<close>

type_synonym intermediateBalancerConfig = "(string \<times> RawMessage) list list"

text \<open>
  The errors \<open>UnmarshalJSON\<close> returns: the decoder's error, and the three built with
  \<open>fmt.Errorf\<close>, with the values their messages carry.
\<close>

datatype error =
    JSONError string
  | NotExactlyOnePair nat "(string \<times> RawMessage) list"
  | ParseConfigError string string
  | NoSupportedPolicies

text \<open>
  \<open>for name, jsonCfg = range lbcfg {}\<close> assigns every pair in turn and leaves the last
  one in the variables, which start at their zero values.
\<close>

definition rangeLast :: "(string \<times> RawMessage) list \<Rightarrow> string \<times> RawMessage" where
  "rangeLast lbcfg = foldl (\<lambda>_ kv. kv) ([], []) lbcfg"

text \<open>
  The loop \<open>for i, lbcfg := range ir\<close> with the return after it. The receiver \<open>bc\<close>
  is passed in and returned with the error (\<open>None\<close> is nil). The warning logged for
  a non-empty configuration of a builder without \<open>ParseConfig\<close> changes neither.
\<close>

fun unmarshalEntries ::
  "('bld, 'cfg) balancer_m \<Rightarrow> nat \<Rightarrow> 'cfg BalancerConfig \<Rightarrow> intermediateBalancerConfig
     \<Rightarrow> 'cfg BalancerConfig \<times> error option" where
  "unmarshalEntries m i bc [] = (bc, Some NoSupportedPolicies)"
| "unmarshalEntries m i bc (lbcfg # ir) =
     (if length lbcfg \<noteq> 1 then (bc, Some (NotExactlyOnePair i lbcfg))
      else
        (case rangeLast lbcfg of (name, jsonCfg) \<Rightarrow>
          (case balancer_Get m name of
             None \<Rightarrow> unmarshalEntries m (i + 1) bc ir
           | Some builder \<Rightarrow>
               (let bc = bc\<lparr>Name := name\<rparr> in
                (case builder_ParseConfig builder of
                   None \<Rightarrow> (bc, None)
                 | Some parser \<Rightarrow>
                     (case parser jsonCfg of
                        Inl err \<Rightarrow> (bc, Some (ParseConfigError name err))
                      | Inr cfg \<Rightarrow> (bc\<lparr>Config := cfg\<rparr>, None)))))))"

text \<open>
  \<open>json.Unmarshal\<close> is the standard library's decoder. The argument \<open>b\<close> is given
  by what the decoder makes of it: \<open>Inl err\<close> when it fails, \<open>Inr ir\<close> when it
  yields the list \<open>ir\<close>.
\<close>

definition UnmarshalJSON ::
  "('bld, 'cfg) balancer_m \<Rightarrow> 'cfg BalancerConfig \<Rightarrow> string + intermediateBalancerConfig
     \<Rightarrow> 'cfg BalancerConfig \<times> error option" where
  "UnmarshalJSON m bc b =
     (case b of
        Inl err \<Rightarrow> (bc, Some (JSONError err))
      | Inr ir \<Rightarrow> unmarshalEntries m 0 bc ir)"

text \<open>
  The policy an entry names, and the two kinds of one-key entries: one whose policy
  is not registered, and one whose policy is.
\<close>

definition entryName :: "(string \<times> RawMessage) list \<Rightarrow> string" where
  "entryName lbcfg = fst (rangeLast lbcfg)"

definition unregisteredEntry ::
  "('bld, 'cfg) balancer_m \<Rightarrow> (string \<times> RawMessage) list \<Rightarrow> bool" where
  "unregisteredEntry m lbcfg = (length lbcfg = 1 \<and> balancer_Get m (entryName lbcfg) = None)"

definition registeredEntry ::
  "('bld, 'cfg) balancer_m \<Rightarrow> (string \<times> RawMessage) list \<Rightarrow> bool" where
  "registeredEntry m lbcfg = (length lbcfg = 1 \<and> balancer_Get m (entryName lbcfg) \<noteq> None)"


section \<open>Example builders\<close>

text \<open>
  Concrete inputs for the theorems below: a parser that rejects the raw configuration
  \<open>[]\<close> and otherwise returns the raw text as the parsed configuration, the raw
  configuration of the specification's example, a builder
  with that parser, a builder without \<open>ParseConfig\<close>, the registry holding both,
  the zero \<open>BalancerConfig\<close>, a balancer builder and a resolver builder that both
  declare the name \<open>Foo\<close>, and a history of two SubConns.
\<close>

definition exampleParseConfig :: "RawMessage \<Rightarrow> string + string option" where
  "exampleParseConfig raw = (if raw = ''[]'' then Inl ''not an object'' else Inr (Some raw))"

definition exampleRawConfig :: RawMessage where
  \<open>exampleRawConfig = ''{"x":1}''\<close>

definition knownBuilder :: "(unit, string option) Builder" where
  "knownBuilder =
     \<lparr>builder_Build = (), builder_Name = ''known_policy'',
      builder_ParseConfig = Some exampleParseConfig\<rparr>"

definition plainBuilder :: "(unit, string option) Builder" where
  "plainBuilder =
     \<lparr>builder_Build = (), builder_Name = ''plain_policy'', builder_ParseConfig = None\<rparr>"

definition fooBuilder :: "(unit, string option) Builder" where
  "fooBuilder = \<lparr>builder_Build = (), builder_Name = ''Foo'', builder_ParseConfig = None\<rparr>"

definition fooResolver :: "unit resolver_Builder" where
  "fooResolver = \<lparr>resolver_Build = (), Scheme = ''Foo''\<rparr>"

definition exampleRegistry :: "(unit, string option) balancer_m" where
  "exampleRegistry = balancer_Register (balancer_Register Map.empty knownBuilder) plainBuilder"

definition zeroBalancerConfig :: "string option BalancerConfig" where
  "zeroBalancerConfig = \<lparr>Name = [], Config = None\<rparr>"

definition exampleHistory :: "string transition list" where
  "exampleHistory =
     [(''sc1'', Idle, Connecting), (''sc2'', Idle, Connecting), (''sc1'', Connecting, Ready),
      (''sc1'', Ready, TransientFailure)]"


section \<open>Case folding\<close>

lemma char_of_shift:
  "(of_char d :: nat) = of_char c + 32 \<Longrightarrow> char_of (of_char c + 32 :: nat) = d"
  by (metis char_of_char)

lemma sameLetter_toLowerByte: "sameLetter c d \<Longrightarrow> toLowerByte c = toLowerByte d"
  unfolding sameLetter_def isUpper_def toLowerByte_def Let_def
  by (auto simp: char_of_shift)

lemma caseVariant_ToLower: "caseVariant s t \<Longrightarrow> ToLower s = ToLower t"
  unfolding caseVariant_def ToLower_def
  by (induction s t rule: list_all2_induct) (simp_all add: sameLetter_toLowerByte)

lemma toLowerByte_of_char:
  "(of_char (toLowerByte c) :: nat) =
     (if 65 \<le> (of_char c :: nat) \<and> (of_char c :: nat) \<le> 90 then of_char c + 32 else of_char c)"
  by (simp add: toLowerByte_def Let_def)

text \<open>Bytes with the same lower case differ at most in case.\<close>

lemma toLowerByte_sameLetter:
  assumes "toLowerByte c = toLowerByte d"
  shows "sameLetter c d"
proof -
  from assms have eq: "(of_char (toLowerByte c) :: nat) = of_char (toLowerByte d)"
    by simp
  show ?thesis
  proof (cases "isUpper c")
    case True
    note cu = True
    show ?thesis
    proof (cases "isUpper d")
      case True
      with cu eq have "(of_char c :: nat) = of_char d"
        by (auto simp: toLowerByte_of_char isUpper_def split: if_splits)
      then show ?thesis
        by (simp add: sameLetter_def)
    next
      case False
      with cu eq have "(of_char d :: nat) = of_char c + 32"
        by (auto simp: toLowerByte_of_char isUpper_def split: if_splits)
      with cu show ?thesis
        by (simp add: sameLetter_def)
    qed
  next
    case False
    note cl = False
    show ?thesis
    proof (cases "isUpper d")
      case True
      with cl eq have "(of_char c :: nat) = of_char d + 32"
        by (auto simp: toLowerByte_of_char isUpper_def split: if_splits)
      with True show ?thesis
        by (simp add: sameLetter_def)
    next
      case False
      with cl eq have "(of_char c :: nat) = of_char d"
        by (auto simp: toLowerByte_of_char isUpper_def split: if_splits)
      then show ?thesis
        by (simp add: sameLetter_def)
    qed
  qed
qed

lemma ToLower_caseVariant: "ToLower s = ToLower t \<Longrightarrow> caseVariant s t"
  unfolding caseVariant_def ToLower_def
proof (induction s arbitrary: t)
  case Nil
  then show ?case by simp
next
  case (Cons c s)
  then obtain d t' where t: "t = d # t'"
    by (cases t) auto
  with Cons.prems have "toLowerByte c = toLowerByte d" "map toLowerByte s = map toLowerByte t'"
    by simp_all
  with Cons.IH [of t'] t show ?case
    by (simp add: toLowerByte_sameLetter)
qed

lemma ToLower_eq_iff: "(ToLower s = ToLower t) = caseVariant s t"
  using ToLower_caseVariant caseVariant_ToLower by blast

lemma balancer_Get_eq: "balancer_Get m name = m (ToLower name)"
  by (simp add: balancer_Get_def split: option.split)

lemma resolver_Get_eq: "resolver_Get m scheme = m scheme"
  by (simp add: resolver_Get_def split: option.split)

lemma ToLower_Foo: "ToLower ''Foo'' = ''foo''"
  by code_simp

lemma ToLower_foo: "ToLower ''foo'' = ''foo''"
  by code_simp

lemma ToLower_FOO: "ToLower ''FOO'' = ''foo''"
  by code_simp


subsection \<open>Lookups in the example registry\<close>

lemma ToLower_known_policy: "ToLower ''known_policy'' = ''known_policy''"
  by code_simp

lemma ToLower_plain_policy: "ToLower ''plain_policy'' = ''plain_policy''"
  by code_simp

lemma ToLower_unknown_policy: "ToLower ''unknown_policy'' = ''unknown_policy''"
  by code_simp

lemma Get_known_policy: "balancer_Get exampleRegistry ''known_policy'' = Some knownBuilder"
  by (simp add: balancer_Get_eq exampleRegistry_def balancer_Register_def knownBuilder_def
      plainBuilder_def ToLower_known_policy ToLower_plain_policy)

lemma Get_plain_policy: "balancer_Get exampleRegistry ''plain_policy'' = Some plainBuilder"
  by (simp add: balancer_Get_eq exampleRegistry_def balancer_Register_def knownBuilder_def
      plainBuilder_def ToLower_known_policy ToLower_plain_policy)

lemma Get_unknown_policy: "balancer_Get exampleRegistry ''unknown_policy'' = None"
  by (simp add: balancer_Get_eq exampleRegistry_def balancer_Register_def knownBuilder_def
      plainBuilder_def ToLower_known_policy ToLower_plain_policy ToLower_unknown_policy)


section \<open>Registry round trips\<close>

text \<open>
  Claim C7. \<open>balancer.Register(b)\<close> stores \<open>b\<close> under the lower-cased name it
  declares (under the key \<open>foo\<close> when the name is \<open>Foo\<close>), and \<open>balancer.Get\<close> folds
  the case of its argument. So after the registration \<open>Get\<close> returns \<open>b\<close> for every
  case variant of the declared name, \<open>foo\<close> and \<open>FOO\<close> for the name \<open>Foo\<close>, and for
  every name that is not a case variant it returns what it returned before. After
  \<open>resolver.Register(rb)\<close>, \<open>resolver.Get\<close> returns \<open>rb\<close> for the scheme exactly as
  declared, and the lookup of every other string, a case variant included, is what it
  was before the registration: nil in a registry that held nothing under that string.
\<close>

theorem registry_round_trip:
  fixes m :: "('bld, 'cfg) balancer_m" and rm :: "'rbld resolver_m"
  shows "(caseVariant name (builder_Name b) \<longrightarrow> balancer_Get (balancer_Register m b) name = Some b)
       \<and> (builder_Name b = ''Foo'' \<longrightarrow>
            balancer_Get (balancer_Register m b) ''foo'' = Some b
          \<and> balancer_Get (balancer_Register m b) ''FOO'' = Some b)
       \<and> (builder_Name b = ''Foo'' \<longrightarrow> balancer_Register m b = m(''foo'' \<mapsto> b))
       \<and> balancer_Get m ''FOO'' = m ''foo''
       \<and> balancer_Get (balancer_Register m b) name =
            (if caseVariant name (builder_Name b) then Some b else balancer_Get m name)
       \<and> (\<not> caseVariant name (builder_Name b) \<longrightarrow>
            balancer_Get (balancer_Register m b) name = balancer_Get m name)
       \<and> resolver_Get (resolver_Register rm rb) (Scheme rb) = Some rb
       \<and> (scheme \<noteq> Scheme rb \<longrightarrow>
            resolver_Get (resolver_Register rm rb) scheme = resolver_Get rm scheme)
       \<and> (scheme \<noteq> Scheme rb \<longrightarrow>
            resolver_Get (resolver_Register Map.empty rb) scheme = None)"
proof -
  have get: "balancer_Get (balancer_Register m b) name =
             (if caseVariant name (builder_Name b) then Some b else balancer_Get m name)"
    by (simp add: balancer_Get_eq balancer_Register_def ToLower_eq_iff)
  have foo: "balancer_Get (balancer_Register m b) ''foo'' = Some b
             \<and> balancer_Get (balancer_Register m b) ''FOO'' = Some b
             \<and> balancer_Register m b = m(''foo'' \<mapsto> b)"
    if "builder_Name b = ''Foo''"
    using that
    by (simp add: balancer_Get_eq balancer_Register_def ToLower_Foo ToLower_foo ToLower_FOO)
  have fold: "balancer_Get m ''FOO'' = m ''foo''"
    by (simp add: balancer_Get_eq ToLower_FOO)
  have res: "resolver_Get (resolver_Register rm rb) (Scheme rb) = Some rb"
    by (simp add: resolver_Get_eq resolver_Register_def)
  have other: "resolver_Get (resolver_Register rm rb) scheme = resolver_Get rm scheme"
    "resolver_Get (resolver_Register Map.empty rb) scheme = None"
    if "scheme \<noteq> Scheme rb"
    using that by (simp_all add: resolver_Get_eq resolver_Register_def)
  have cv: "balancer_Get (balancer_Register m b) name = Some b"
    if "caseVariant name (builder_Name b)"
    using that get by simp
  have ncv: "balancer_Get (balancer_Register m b) name = balancer_Get m name"
    if "\<not> caseVariant name (builder_Name b)"
    using that get by simp
  show ?thesis
    using cv ncv get foo fold res other by blast
qed

lemma not_caseVariant_known_policy: "\<not> caseVariant ''known_policy'' ''Foo''"
  by code_simp

theorem registry_round_trip_witness:
  "caseVariant ''fOo'' (builder_Name fooBuilder) \<and> builder_Name fooBuilder = ''Foo''
   \<and> balancer_Get (balancer_Register Map.empty fooBuilder) ''fOo'' = Some fooBuilder
   \<and> balancer_Get (balancer_Register Map.empty fooBuilder) ''foo'' = Some fooBuilder
   \<and> balancer_Get (balancer_Register Map.empty fooBuilder) ''FOO'' = Some fooBuilder
   \<and> balancer_Register exampleRegistry fooBuilder = exampleRegistry(''foo'' \<mapsto> fooBuilder)
   \<and> \<not> caseVariant ''known_policy'' (builder_Name fooBuilder)
   \<and> balancer_Get (balancer_Register exampleRegistry fooBuilder) ''known_policy''
     = Some knownBuilder
   \<and> resolver_Get (resolver_Register Map.empty fooResolver) ''Foo'' = Some fooResolver
   \<and> ''foo'' \<noteq> Scheme fooResolver
   \<and> resolver_Get (resolver_Register Map.empty fooResolver) ''foo'' = None"
proof -
  have n: "builder_Name fooBuilder = ''Foo''"
    by (simp add: fooBuilder_def)
  have cv: "caseVariant ''fOo'' (builder_Name fooBuilder)"
    unfolding n by code_simp
  have ncv: "\<not> caseVariant ''known_policy'' (builder_Name fooBuilder)"
    unfolding n by (rule not_caseVariant_known_policy)
  have sch: "Scheme fooResolver = ''Foo''"
    by (simp add: fooResolver_def)
  have ne: "''foo'' \<noteq> Scheme fooResolver"
    by (simp add: sch)
  have a: "balancer_Get (balancer_Register Map.empty fooBuilder) ''fOo'' = Some fooBuilder
      \<and> balancer_Get (balancer_Register Map.empty fooBuilder) ''foo'' = Some fooBuilder
      \<and> balancer_Get (balancer_Register Map.empty fooBuilder) ''FOO'' = Some fooBuilder
      \<and> resolver_Get (resolver_Register Map.empty fooResolver) (Scheme fooResolver)
        = Some fooResolver
      \<and> resolver_Get (resolver_Register Map.empty fooResolver) ''foo'' = None"
    using n cv ne
      registry_round_trip [of "''fOo''" fooBuilder Map.empty Map.empty fooResolver "''foo''"]
    by blast
  have r: "resolver_Get (resolver_Register Map.empty fooResolver) ''Foo'' = Some fooResolver"
    using a sch by simp
  have b: "balancer_Register exampleRegistry fooBuilder = exampleRegistry(''foo'' \<mapsto> fooBuilder)"
    using n
      registry_round_trip [of "''known_policy''" fooBuilder exampleRegistry Map.empty
        fooResolver "''foo''"]
    by blast
  have "balancer_Get (balancer_Register exampleRegistry fooBuilder) ''known_policy''
        = balancer_Get exampleRegistry ''known_policy''"
    using ncv
      registry_round_trip [of "''known_policy''" fooBuilder exampleRegistry Map.empty
        fooResolver "''foo''"]
    by blast
  then have k: "balancer_Get (balancer_Register exampleRegistry fooBuilder) ''known_policy''
                = Some knownBuilder"
    by (simp only: Get_known_policy)
  show ?thesis
    using n cv ncv ne a b r k by blast
qed

text \<open>
  Claim C10. \<open>unregisterForTesting\<close> deletes the key it is given and does not fold
  its case. With a builder registered under the declared name \<open>Foo\<close> (key \<open>foo\<close>),
  \<open>unregisterForTesting("Foo")\<close>, like every name other than the stored key, leaves
  the builder in place and \<open>Get("Foo")\<close> still returns it; \<open>unregisterForTesting("foo")\<close>
  removes it, and \<open>Get\<close> then returns nil for every case variant of the name.
\<close>

theorem unregisterForTesting_exact_key:
  fixes m :: "('bld, 'cfg) balancer_m"
  shows "(builder_Name b = ''Foo'' \<longrightarrow>
            balancer_Get (unregisterForTesting (balancer_Register m b) ''Foo'') ''Foo'' = Some b)
       \<and> (builder_Name b = ''Foo'' \<and> name \<noteq> ''foo'' \<and> caseVariant v ''Foo'' \<longrightarrow>
            balancer_Get (unregisterForTesting (balancer_Register m b) name) v = Some b)
       \<and> (builder_Name b = ''Foo'' \<and> caseVariant v ''Foo'' \<longrightarrow>
            balancer_Get (unregisterForTesting (balancer_Register m b) ''foo'') v = None)"
proof -
  have "ToLower v = ''foo''" if "caseVariant v ''Foo''"
    using caseVariant_ToLower [OF that] by (simp add: ToLower_Foo)
  then show ?thesis
    by (auto simp: balancer_Get_eq unregisterForTesting_def balancer_Register_def ToLower_Foo)
qed

theorem unregisterForTesting_exact_key_witness:
  "builder_Name fooBuilder = ''Foo'' \<and> caseVariant ''FOo'' ''Foo'' \<and> ''FOO'' \<noteq> ''foo''
   \<and> balancer_Get (unregisterForTesting (balancer_Register Map.empty fooBuilder) ''Foo'') ''Foo''
     = Some fooBuilder
   \<and> balancer_Get (unregisterForTesting (balancer_Register Map.empty fooBuilder) ''FOO'') ''FOo''
     = Some fooBuilder
   \<and> balancer_Get (unregisterForTesting (balancer_Register Map.empty fooBuilder) ''foo'') ''FOo''
     = None"
proof -
  have n: "builder_Name fooBuilder = ''Foo''"
    by (simp add: fooBuilder_def)
  have cv: "caseVariant ''FOo'' ''Foo''"
    by code_simp
  have ne: "''FOO'' \<noteq> ''foo''"
    by simp
  show ?thesis
    using n cv ne
      unregisterForTesting_exact_key [of fooBuilder Map.empty "''FOO''" "''FOo''"]
    by simp
qed


section \<open>One call of RecordTransition\<close>

lemma updateVal_0: "updateVal 0 = - 1"
  by (simp add: updateVal_def)

lemma updateVal_1: "updateVal (Suc 0) = 1"
  by (simp add: updateVal_def)

lemma unat_max64: "unat (- 1 :: 64 word) = 2 ^ 64 - 1"
  by (simp add: unsigned_minus_1_eq_mask mask_eq_exp_minus_1)

lemma RecordTransition_numReady:
  "numReady (fst (RecordTransition cse old new)) =
     numReady cse - (if old = Ready then 1 else 0) + (if new = Ready then 1 else 0)"
  by (cases old; cases new) (simp_all add: RecordTransition_def Let_def updateVal_0 updateVal_1)

lemma RecordTransition_numConnecting:
  "numConnecting (fst (RecordTransition cse old new)) =
     numConnecting cse - (if old = Connecting then 1 else 0)
       + (if new = Connecting then 1 else 0)"
  by (cases old; cases new) (simp_all add: RecordTransition_def Let_def updateVal_0 updateVal_1)

lemma RecordTransition_snd:
  "snd (RecordTransition cse old new) =
     (if numReady (fst (RecordTransition cse old new)) > 0 then Ready
      else if numConnecting (fst (RecordTransition cse old new)) > 0 then Connecting
      else TransientFailure)"
  by (simp add: RecordTransition_def Let_def)

lemma RecordTransition_uncounted:
  assumes "old \<noteq> Ready" "old \<noteq> Connecting" "new \<noteq> Ready" "new \<noteq> Connecting"
  shows "fst (RecordTransition cse old new) = cse"
  using assms by (cases old; cases new) (simp_all add: RecordTransition_def Let_def)

lemma RecordTransition_same:
  "fst (RecordTransition cse s s) = cse"
  by (cases s) (simp_all add: RecordTransition_def Let_def updateVal_0 updateVal_1)

lemma recordAll_Cons_fst:
  "fst (recordAll cse ((old, new) # ts)) = fst (recordAll (fst (RecordTransition cse old new)) ts)"
  by (simp split: prod.splits)

lemma recordAll_Cons_snd:
  "snd (recordAll cse ((old, new) # ts)) =
     snd (RecordTransition cse old new) # snd (recordAll (fst (RecordTransition cse old new)) ts)"
  by (simp split: prod.splits)

lemma recordAll_idle_shutdown:
  "list_all (\<lambda>(old, new). old \<in> {Idle, Shutdown} \<and> new \<in> {Idle, Shutdown}) ts \<Longrightarrow>
   recordAll zeroEvaluator ts = (zeroEvaluator, replicate (length ts) TransientFailure)"
proof (induction ts)
  case Nil
  then show ?case by simp
next
  case (Cons t ts)
  obtain old new where t: "t = (old, new)" by (cases t)
  from Cons.prems t have on: "old \<in> {Idle, Shutdown}" "new \<in> {Idle, Shutdown}"
    and rest: "list_all (\<lambda>(old, new). old \<in> {Idle, Shutdown} \<and> new \<in> {Idle, Shutdown}) ts"
    by simp_all
  from on have same: "fst (RecordTransition zeroEvaluator old new) = zeroEvaluator"
    by (intro RecordTransition_uncounted) auto
  have ret: "snd (RecordTransition zeroEvaluator old new) = TransientFailure"
    by (simp add: RecordTransition_snd same) (simp add: zeroEvaluator_def)
  have "recordAll zeroEvaluator (t # ts) =
        (fst (recordAll zeroEvaluator (t # ts)), snd (recordAll zeroEvaluator (t # ts)))"
    by simp
  also have "\<dots> = (zeroEvaluator, replicate (length (t # ts)) TransientFailure)"
    unfolding t recordAll_Cons_fst recordAll_Cons_snd same ret
    by (simp add: Cons.IH [OF rest])
  finally show ?case .
qed

text \<open>
  Claim C5. One call \<open>RecordTransition(oldState, newState)\<close> subtracts one from
  \<open>numReady\<close> (\<open>numConnecting\<close>) when \<open>oldState\<close> is Ready (Connecting) and adds one
  when \<open>newState\<close> is Ready (Connecting), in \<open>uint64\<close> arithmetic; Idle, Shutdown and
  TransientFailure change neither counter. The value returned is Ready when
  \<open>numReady > 0\<close> after the update, else Connecting when \<open>numConnecting > 0\<close>, else
  TransientFailure. A fresh evaluator that records only transitions between Idle and
  Shutdown keeps both counters at zero and returns TransientFailure every time.
\<close>

theorem RecordTransition_single_call:
  "numReady (fst (RecordTransition cse oldState newState)) =
     numReady cse - (if oldState = Ready then 1 else 0) + (if newState = Ready then 1 else 0)
   \<and> numConnecting (fst (RecordTransition cse oldState newState)) =
     numConnecting cse - (if oldState = Connecting then 1 else 0)
       + (if newState = Connecting then 1 else 0)
   \<and> (oldState \<in> {Idle, Shutdown, TransientFailure}
        \<and> newState \<in> {Idle, Shutdown, TransientFailure}
      \<longrightarrow> fst (RecordTransition cse oldState newState) = cse)
   \<and> snd (RecordTransition cse oldState newState) =
     (if numReady (fst (RecordTransition cse oldState newState)) > 0 then Ready
      else if numConnecting (fst (RecordTransition cse oldState newState)) > 0 then Connecting
      else TransientFailure)
   \<and> (list_all (\<lambda>(old, new). old \<in> {Idle, Shutdown} \<and> new \<in> {Idle, Shutdown}) ts
      \<longrightarrow> recordAll zeroEvaluator ts
          = (zeroEvaluator, replicate (length ts) TransientFailure))"
proof -
  have unc: "fst (RecordTransition cse oldState newState) = cse"
    if "oldState \<in> {Idle, Shutdown, TransientFailure}"
      and "newState \<in> {Idle, Shutdown, TransientFailure}"
    using that by (intro RecordTransition_uncounted) auto
  show ?thesis
    using RecordTransition_numReady [of cse oldState newState]
      RecordTransition_numConnecting [of cse oldState newState]
      RecordTransition_snd [of cse oldState newState]
      recordAll_idle_shutdown [of ts] unc
    by blast
qed

theorem RecordTransition_single_call_witness:
  "numReady (fst (RecordTransition \<lparr>numReady = 3, numConnecting = 1\<rparr> Ready Connecting)) = 2
   \<and> numConnecting (fst (RecordTransition \<lparr>numReady = 3, numConnecting = 1\<rparr> Ready Connecting)) = 2
   \<and> snd (RecordTransition \<lparr>numReady = 1, numConnecting = 1\<rparr> Ready TransientFailure) = Connecting
   \<and> fst (RecordTransition \<lparr>numReady = 3, numConnecting = 1\<rparr> TransientFailure Shutdown)
     = \<lparr>numReady = 3, numConnecting = 1\<rparr>
   \<and> recordAll zeroEvaluator [(Idle, Idle), (Idle, Shutdown)]
     = (zeroEvaluator, [TransientFailure, TransientFailure])"
  using RecordTransition_single_call [of "\<lparr>numReady = 3, numConnecting = 1\<rparr>" Ready Connecting
      "[(Idle, Idle), (Idle, Shutdown)]"]
    RecordTransition_single_call [of "\<lparr>numReady = 1, numConnecting = 1\<rparr>" Ready TransientFailure "[]"]
    RecordTransition_single_call [of "\<lparr>numReady = 3, numConnecting = 1\<rparr>" TransientFailure Shutdown "[]"]
  by (simp add: numeral_2_eq_2)

text \<open>
  Claim C8, as stated, at a fresh evaluator: \<open>RecordTransition(Ready, Ready)\<close> finds
  \<open>numReady\<close> at 0 and returns TransientFailure with the counter back at 0, and
  \<open>RecordTransition(Connecting, Ready)\<close> finds \<open>numConnecting\<close> at 0 and returns Ready.
\<close>

theorem RecordTransition_underflow_counterexample:
  "numReady zeroEvaluator = 0 \<and> numConnecting zeroEvaluator = 0
   \<and> RecordTransition zeroEvaluator Ready Ready = (zeroEvaluator, TransientFailure)
   \<and> snd (RecordTransition zeroEvaluator Ready Ready) \<noteq> Ready
   \<and> snd (RecordTransition zeroEvaluator Connecting Ready) = Ready
   \<and> snd (RecordTransition zeroEvaluator Connecting Ready) \<noteq> Connecting"
  by (simp add: RecordTransition_def zeroEvaluator_def Let_def updateVal_0 updateVal_1)

text \<open>
  Claim C8, amended. The counters are \<open>uint64\<close> and wrap modulo \<open>2^64\<close>. A call with
  \<open>oldState\<close> Ready, \<open>newState\<close> other than Ready and \<open>numReady\<close> at 0 leaves
  \<open>numReady\<close> at \<open>2^64 - 1\<close> and returns Ready. A call with \<open>oldState\<close> Connecting,
  \<open>newState\<close> other than Connecting and \<open>numConnecting\<close> at 0 leaves \<open>numConnecting\<close>
  at \<open>2^64 - 1\<close> and returns Connecting when \<open>numReady\<close> is 0 after the call (as it
  is when it was 0 before and \<open>newState\<close> is not Ready), Ready otherwise. When
  \<open>newState\<close> equals \<open>oldState\<close> the evaluator is unchanged after the call.
\<close>

theorem RecordTransition_underflow:
  "(oldState = Ready \<and> newState \<noteq> Ready \<and> numReady cse = 0 \<longrightarrow>
      unat (numReady (fst (RecordTransition cse oldState newState))) = 2 ^ 64 - 1
    \<and> snd (RecordTransition cse oldState newState) = Ready)
   \<and> (oldState = Connecting \<and> newState \<noteq> Connecting \<and> numConnecting cse = 0 \<longrightarrow>
      unat (numConnecting (fst (RecordTransition cse oldState newState))) = 2 ^ 64 - 1
    \<and> snd (RecordTransition cse oldState newState) =
        (if numReady (fst (RecordTransition cse oldState newState)) > 0 then Ready
         else Connecting))
   \<and> (oldState = Connecting \<and> newState \<noteq> Connecting \<and> newState \<noteq> Ready
        \<and> numConnecting cse = 0 \<and> numReady cse = 0 \<longrightarrow>
      snd (RecordTransition cse oldState newState) = Connecting)
   \<and> (oldState = newState \<longrightarrow> fst (RecordTransition cse oldState newState) = cse)"
proof -
  let ?r = "RecordTransition cse oldState newState"
  have pos: "(0 :: 64 word) < - 1"
    by (simp add: word_gt_0)
  have c1: "unat (numReady (fst ?r)) = 2 ^ 64 - 1 \<and> snd ?r = Ready"
    if "oldState = Ready" "newState \<noteq> Ready" "numReady cse = 0"
  proof -
    have "numReady (fst ?r) = - 1"
      using that by (simp add: RecordTransition_numReady)
    then show ?thesis
      by (simp add: RecordTransition_snd [of cse oldState newState] unat_max64 pos)
  qed
  have c2: "unat (numConnecting (fst ?r)) = 2 ^ 64 - 1
            \<and> snd ?r = (if numReady (fst ?r) > 0 then Ready else Connecting)"
    if "oldState = Connecting" "newState \<noteq> Connecting" "numConnecting cse = 0"
  proof -
    have "numConnecting (fst ?r) = - 1"
      using that by (simp add: RecordTransition_numConnecting)
    then show ?thesis
      by (simp add: RecordTransition_snd [of cse oldState newState] unat_max64 pos)
  qed
  have c3: "snd ?r = Connecting"
    if "oldState = Connecting" "newState \<noteq> Connecting" "newState \<noteq> Ready"
      "numConnecting cse = 0" "numReady cse = 0"
  proof -
    have "numReady (fst ?r) = 0"
      using that by (simp add: RecordTransition_numReady)
    with c2 [OF that(1,2,4)] show ?thesis
      by simp
  qed
  have c4: "fst ?r = cse" if "oldState = newState"
    using that by (simp add: RecordTransition_same)
  show ?thesis
    using c1 c2 c3 c4 by blast
qed

theorem RecordTransition_underflow_witness:
  "numReady zeroEvaluator = 0 \<and> numConnecting zeroEvaluator = 0 \<and> Idle \<noteq> Ready
   \<and> TransientFailure \<noteq> Connecting
   \<and> unat (numReady (fst (RecordTransition zeroEvaluator Ready Idle))) = 2 ^ 64 - 1
   \<and> snd (RecordTransition zeroEvaluator Ready Idle) = Ready
   \<and> unat (numConnecting (fst (RecordTransition zeroEvaluator Connecting TransientFailure)))
     = 2 ^ 64 - 1
   \<and> snd (RecordTransition zeroEvaluator Connecting TransientFailure) = Connecting
   \<and> fst (RecordTransition zeroEvaluator Ready Ready) = zeroEvaluator"
proof -
  have z: "numReady zeroEvaluator = 0" "numConnecting zeroEvaluator = 0"
    by (simp_all add: zeroEvaluator_def)
  have a: "unat (numReady (fst (RecordTransition zeroEvaluator Ready Idle))) = 2 ^ 64 - 1
           \<and> snd (RecordTransition zeroEvaluator Ready Idle) = Ready"
    using z RecordTransition_underflow [of Ready Idle zeroEvaluator] by simp
  have b: "unat (numConnecting (fst (RecordTransition zeroEvaluator Connecting TransientFailure)))
           = 2 ^ 64 - 1"
    using z RecordTransition_underflow [of Connecting TransientFailure zeroEvaluator] by simp
  have n: "TransientFailure \<noteq> Connecting" "TransientFailure \<noteq> Ready"
    by simp_all
  have c: "snd (RecordTransition zeroEvaluator Connecting TransientFailure) = Connecting"
    using z n RecordTransition_underflow [of Connecting TransientFailure zeroEvaluator] by blast
  have d: "fst (RecordTransition zeroEvaluator Ready Ready) = zeroEvaluator"
    using RecordTransition_underflow [of Ready Ready zeroEvaluator] by simp
  show ?thesis
    using z a b c d by simp
qed


section \<open>Histories of RecordTransition calls\<close>

lemma upd_set:
  "{x. (st(sc := new)) x = R} = ({x. st x = R} - {sc}) \<union> (if new = R then {sc} else {})"
  by auto

lemma finite_upd:
  "finite {x. st x = R} \<Longrightarrow> finite {x. (st(sc := new)) x = (R :: connectivity_State)}"
  by (subst upd_set) simp

text \<open>
  Moving one SubConn from its state to \<open>new\<close> changes the number of SubConns in state
  \<open>R\<close> as the two counter updates of \<open>RecordTransition\<close> do.
\<close>

lemma word_card_upd:
  fixes st :: "'sc \<Rightarrow> connectivity_State"
  assumes "finite {x. st x = R}"
  shows "(of_nat (card {x. (st(sc := new)) x = R}) :: 64 word) =
         of_nat (card {x. st x = R}) - (if st sc = R then 1 else 0) + (if new = R then 1 else 0)"
proof -
  let ?A = "{x. st x = R}"
  have fin: "finite (?A - {sc})"
    using assms by simp
  have notin: "sc \<notin> ?A - {sc}"
    by simp
  have c1: "(of_nat (card (?A - {sc})) :: 64 word) =
            of_nat (card ?A) - (if st sc = R then 1 else 0)"
  proof (cases "st sc = R")
    case True
    then have "sc \<in> ?A"
      by simp
    then have "card ?A = Suc (card (?A - {sc}))"
      using card_Suc_Diff1 [OF assms, of sc] by simp
    then show ?thesis
      using True by simp
  next
    case False
    then have "?A - {sc} = ?A"
      by auto
    then show ?thesis
      using False by simp
  qed
  show ?thesis
  proof (cases "new = R")
    case True
    then have "{x. (st(sc := new)) x = R} = insert sc (?A - {sc})"
      by (auto simp: upd_set)
    then have "card {x. (st(sc := new)) x = R} = Suc (card (?A - {sc}))"
      by (simp only: card_insert_disjoint [OF fin notin])
    then show ?thesis
      using True c1 by simp
  next
    case False
    then have "{x. (st(sc := new)) x = R} = ?A - {sc}"
      by (auto simp: upd_set)
    then show ?thesis
      using False c1 by simp
  qed
qed

lemma counts_agree_step:
  assumes "counts_agree st cse" and "st sc = old"
  shows "counts_agree (st(sc := new)) (fst (RecordTransition cse old new))"
proof -
  from assms(1) have fR: "finite {x. st x = Ready}" and fC: "finite {x. st x = Connecting}"
    and nR: "numReady cse = of_nat (card {x. st x = Ready})"
    and nC: "numConnecting cse = of_nat (card {x. st x = Connecting})"
    by (simp_all add: counts_agree_def)
  have r: "numReady (fst (RecordTransition cse old new)) =
           of_nat (card {x. (st(sc := new)) x = Ready})"
    by (simp only: RecordTransition_numReady word_card_upd [OF fR] nR assms(2))
  have c: "numConnecting (fst (RecordTransition cse old new)) =
           of_nat (card {x. (st(sc := new)) x = Connecting})"
    by (simp only: RecordTransition_numConnecting word_card_upd [OF fC] nC assms(2))
  show ?thesis
    unfolding counts_agree_def
    using finite_upd [OF fR, of sc new] finite_upd [OF fC, of sc new] r c by blast
qed

lemma counts_agree_recordAll:
  "valid_history_from st h \<Longrightarrow> counts_agree st cse \<Longrightarrow>
   counts_agree (states_after st h) (fst (recordAll cse (map snd h)))"
proof (induction h arbitrary: st cse)
  case Nil
  then show ?case by simp
next
  case (Cons t h)
  obtain sc old new where t: "t = (sc, old, new)"
    by (cases t)
  from Cons.prems t have a: "st sc = old" and v: "valid_history_from (st(sc := new)) h"
    by simp_all
  have ca: "counts_agree (st(sc := new)) (fst (RecordTransition cse old new))"
    using counts_agree_step [OF Cons.prems(2) a] .
  from Cons.IH [OF v ca] show ?case
    by (simp add: t recordAll_Cons_fst del: recordAll.simps fun_upd_apply)
qed

lemma recordAll_last:
  "ts \<noteq> [] \<Longrightarrow>
   last (snd (recordAll cse ts)) =
     (if numReady (fst (recordAll cse ts)) > 0 then Ready
      else if numConnecting (fst (recordAll cse ts)) > 0 then Connecting
      else TransientFailure)"
proof (induction ts arbitrary: cse)
  case Nil
  then show ?case by simp
next
  case (Cons t ts)
  obtain old new where t: "t = (old, new)"
    by (cases t)
  show ?case
  proof (cases "ts = []")
    case True
    then show ?thesis
      using RecordTransition_snd [of cse old new]
      by (simp add: t recordAll_Cons_fst recordAll_Cons_snd del: recordAll.simps(2))
  next
    case False
    have "snd (recordAll (fst (RecordTransition cse old new)) ts) \<noteq> []"
      using False by (cases ts) (auto simp: recordAll_Cons_snd simp del: recordAll.simps(2))
    with Cons.IH [OF False, of "fst (RecordTransition cse old new)"] show ?thesis
      by (simp add: t recordAll_Cons_fst recordAll_Cons_snd del: recordAll.simps(2))
  qed
qed

lemma states_after_untracked:
  "sc \<notin> tracked h \<Longrightarrow> states_after st h sc = st sc"
  by (induction h arbitrary: st) (auto simp: tracked_def)

lemma counts_agree_zero: "counts_agree (\<lambda>_. Idle) zeroEvaluator"
  by (simp add: counts_agree_def zeroEvaluator_def)

text \<open>A \<open>uint64\<close> counter of fewer than \<open>2^64\<close> SubConns is zero only when there is none.\<close>

lemma of_nat_card_pos:
  assumes "finite T" and "card T < 2 ^ 64" and "A \<subseteq> T"
  shows "((of_nat (card A) :: 64 word) > 0) = (A \<noteq> {})"
proof -
  have fa: "finite A"
    using assms finite_subset by blast
  have "card A \<le> card T"
    using assms card_mono by blast
  then have lt: "card A < 2 ^ 64"
    using assms by simp
  have "(2 ^ 64 dvd card A) = (card A = 0)"
    using lt dvd_imp_le [of "2 ^ 64" "card A"] by auto
  then have "((of_nat (card A) :: 64 word) = 0) = (card A = 0)"
    by (simp add: word_of_nat_eq_0_iff)
  then show ?thesis
    using fa by (simp add: word_gt_0)
qed

text \<open>
  Claim C4. Take a sequence of \<open>RecordTransition\<close> calls on one fresh evaluator
  that forms a valid state history: every tracked SubConn starts in Idle, its
  transitions follow the SubConn state machine, and each transition is recorded once,
  with the state left and the state entered. Then the value the last call returns is
  Ready if and only if some tracked SubConn is currently Ready; otherwise it is
  Connecting if and only if some tracked SubConn is currently Connecting; otherwise
  it is TransientFailure. The counters are \<open>uint64\<close> and count modulo \<open>2^64\<close>, so
  the history is one that tracks fewer than \<open>2^64\<close> SubConns, as every history of
  distinct SubConn objects in a 64-bit address space does.
\<close>

theorem aggregate_of_valid_history:
  assumes "valid_history h" and "h \<noteq> []" and "card (tracked h) < 2 ^ 64"
  shows "last (snd (recordAll zeroEvaluator (map snd h))) =
     (if \<exists>sc \<in> tracked h. current_state h sc = Ready then Ready
      else if \<exists>sc \<in> tracked h. current_state h sc = Connecting then Connecting
      else TransientFailure)"
proof -
  let ?st = "current_state h"
  let ?cse = "fst (recordAll zeroEvaluator (map snd h))"
  have ca: "counts_agree ?st ?cse"
    using counts_agree_recordAll [OF assms(1) [unfolded valid_history_def] counts_agree_zero]
    by (simp add: current_state_def)
  have fin: "finite (tracked h)"
    by (simp add: tracked_def)
  have untr: "?st sc = Idle" if "sc \<notin> tracked h" for sc
    using states_after_untracked [OF that, of "\<lambda>_. Idle"] by (simp add: current_state_def)
  have subR: "{sc. ?st sc = Ready} \<subseteq> tracked h"
    using untr by force
  have subC: "{sc. ?st sc = Connecting} \<subseteq> tracked h"
    using untr by force
  have r: "(numReady ?cse > 0) = (\<exists>sc \<in> tracked h. ?st sc = Ready)"
    using of_nat_card_pos [OF fin assms(3) subR] ca subR by (auto simp: counts_agree_def)
  have c: "(numConnecting ?cse > 0) = (\<exists>sc \<in> tracked h. ?st sc = Connecting)"
    using of_nat_card_pos [OF fin assms(3) subC] ca subC by (auto simp: counts_agree_def)
  have "map snd h \<noteq> []"
    using assms(2) by simp
  from recordAll_last [OF this, of zeroEvaluator] show ?thesis
    by (simp only: r c)
qed

lemma exampleHistory_valid: "valid_history exampleHistory"
  by (simp add: valid_history_def exampleHistory_def)

lemma exampleHistory_tracked: "tracked exampleHistory = {''sc1'', ''sc2''}"
  by (auto simp: tracked_def exampleHistory_def)

lemma exampleHistory_states:
  "current_state exampleHistory ''sc1'' = TransientFailure"
  "current_state exampleHistory ''sc2'' = Connecting"
  by (simp_all add: current_state_def exampleHistory_def)

theorem aggregate_of_valid_history_witness:
  "valid_history exampleHistory \<and> exampleHistory \<noteq> []
   \<and> card (tracked exampleHistory) < 2 ^ 64
   \<and> last (snd (recordAll zeroEvaluator (map snd exampleHistory))) = Connecting"
proof -
  have ne: "exampleHistory \<noteq> []"
    by (simp add: exampleHistory_def)
  have small: "card (tracked exampleHistory) < 2 ^ 64"
    by (simp add: exampleHistory_tracked)
  have noR: "\<not> (\<exists>sc \<in> tracked exampleHistory. current_state exampleHistory sc = Ready)"
    by (simp add: exampleHistory_tracked exampleHistory_states)
  have someC: "\<exists>sc \<in> tracked exampleHistory. current_state exampleHistory sc = Connecting"
    by (simp add: exampleHistory_tracked exampleHistory_states)
  have "last (snd (recordAll zeroEvaluator (map snd exampleHistory))) = Connecting"
    using aggregate_of_valid_history [OF exampleHistory_valid ne small] noR someC
    by (simp only: if_True if_False)
  then show ?thesis
    using exampleHistory_valid ne small by simp
qed


section \<open>Selecting the balancing policy\<close>

lemma rangeLast_single: "rangeLast [(name, jsonCfg)] = (name, jsonCfg)"
  by (simp add: rangeLast_def)

lemma entryName_single: "entryName [(name, jsonCfg)] = name"
  by (simp add: entryName_def rangeLast_single)

text \<open>One-key entries of unregistered policies are skipped; only the index moves.\<close>

lemma unmarshalEntries_skip:
  "list_all (unregisteredEntry m) pre \<Longrightarrow>
   unmarshalEntries m i bc (pre @ ir) = unmarshalEntries m (i + length pre) bc ir"
proof (induction pre arbitrary: i)
  case Nil
  then show ?case by simp
next
  case (Cons e pre)
  then have ue: "unregisteredEntry m e" and rest: "list_all (unregisteredEntry m) pre"
    by simp_all
  from ue have e: "length e = 1" "balancer_Get m (fst (rangeLast e)) = None"
    by (simp_all add: unregisteredEntry_def entryName_def)
  show ?case
    using e Cons.IH [OF rest, of "i + 1"]
    by (simp add: split_beta)
qed

text \<open>At a one-key entry of a registered policy the loop returns.\<close>

lemma unmarshalEntries_registered:
  assumes "balancer_Get m name = Some builder"
  shows "unmarshalEntries m i bc ([(name, jsonCfg)] # post) =
     (case builder_ParseConfig builder of
        None \<Rightarrow> (bc\<lparr>Name := name\<rparr>, None)
      | Some parser \<Rightarrow>
          (case parser jsonCfg of
             Inl err \<Rightarrow> (bc\<lparr>Name := name\<rparr>, Some (ParseConfigError name err))
           | Inr cfg \<Rightarrow> (bc\<lparr>Name := name, Config := cfg\<rparr>, None)))"
  using assms by (simp add: rangeLast_single Let_def split: option.split sum.split)

lemma UnmarshalJSON_registered:
  assumes "list_all (unregisteredEntry m) pre" and "balancer_Get m name = Some builder"
  shows "UnmarshalJSON m bc (Inr (pre @ [(name, jsonCfg)] # post)) =
     (case builder_ParseConfig builder of
        None \<Rightarrow> (bc\<lparr>Name := name\<rparr>, None)
      | Some parser \<Rightarrow>
          (case parser jsonCfg of
             Inl err \<Rightarrow> (bc\<lparr>Name := name\<rparr>, Some (ParseConfigError name err))
           | Inr cfg \<Rightarrow> (bc\<lparr>Name := name, Config := cfg\<rparr>, None)))"
  by (simp only: UnmarshalJSON_def sum.case unmarshalEntries_skip [OF assms(1)]
      unmarshalEntries_registered [OF assms(2)])

text \<open>
  An error after the entries \<open>pre\<close> is an error of the whole list when no entry of
  \<open>pre\<close> is a one-key entry of a registered policy: such an entry is skipped or is
  itself an error.
\<close>

lemma unmarshalEntries_error_before:
  assumes "list_all (\<lambda>e. \<not> registeredEntry m e) pre"
    and "snd (unmarshalEntries m (i + length pre) bc ir) \<noteq> None"
  shows "snd (unmarshalEntries m i bc (pre @ ir)) \<noteq> None"
  using assms
proof (induction pre arbitrary: i)
  case Nil
  then show ?case by simp
next
  case (Cons e pre)
  show ?case
  proof (cases "length e = 1")
    case False
    then show ?thesis by simp
  next
    case True
    from Cons.prems(1) have ne: "\<not> registeredEntry m e"
      and rest: "list_all (\<lambda>e. \<not> registeredEntry m e) pre"
      by simp_all
    from ne True have g: "balancer_Get m (fst (rangeLast e)) = None"
      by (simp add: registeredEntry_def entryName_def)
    from Cons.prems(2) have "snd (unmarshalEntries m (i + 1 + length pre) bc ir) \<noteq> None"
      by simp
    from Cons.IH [OF rest this] True g show ?thesis
      by (simp add: split_beta)
  qed
qed

subsection \<open>The example registry\<close>

lemma unregistered_unknown_policy:
  "list_all (unregisteredEntry exampleRegistry) [[(''unknown_policy'', ''{}'')]]"
  by (simp add: unregisteredEntry_def entryName_single Get_unknown_policy)

lemma knownBuilder_ParseConfig: "builder_ParseConfig knownBuilder = Some exampleParseConfig"
  by (simp add: knownBuilder_def)

lemma plainBuilder_ParseConfig: "builder_ParseConfig plainBuilder = None"
  by (simp add: plainBuilder_def)

subsection \<open>The first registered policy is selected\<close>

lemma exampleParseConfig_example:
  "exampleParseConfig exampleRawConfig = Inr (Some exampleRawConfig)"
  by (simp add: exampleParseConfig_def exampleRawConfig_def)

text \<open>
  Claim C1, as stated, at a concrete list: the first entry names an unregistered
  policy and the second names \<open>plain_policy\<close>, which is registered and whose builder
  does not implement \<open>ConfigParser\<close>. \<open>UnmarshalJSON\<close> succeeds with the name of the
  second entry, and \<open>Config\<close> is what the receiver held before the call, not a
  configuration parsed from the entry.
\<close>

theorem UnmarshalJSON_first_registered_counterexample:
  "list_all (unregisteredEntry exampleRegistry) [[(''unknown_policy'', ''{}'')]]
   \<and> balancer_Get exampleRegistry ''plain_policy'' = Some plainBuilder
   \<and> builder_ParseConfig plainBuilder = None
   \<and> UnmarshalJSON exampleRegistry \<lparr>Name = ''old_policy'', Config = Some ''old''\<rparr>
        (Inr [[(''unknown_policy'', ''{}'')], [(''plain_policy'', exampleRawConfig)]])
     = (\<lparr>Name = ''plain_policy'', Config = Some ''old''\<rparr>, None)"
  by (simp add: unregistered_unknown_policy Get_plain_policy plainBuilder_ParseConfig
      UnmarshalJSON_def rangeLast_single unregisteredEntry_def entryName_single
      Get_unknown_policy)

text \<open>
  Claim C1, amended. Let every entry up to and including position \<open>i\<close> have exactly
  one key, the entries before \<open>i\<close> (the list \<open>pre\<close>) name unregistered policies and
  entry \<open>i\<close> name a registered policy. Then \<open>UnmarshalJSON\<close> skips the entries before
  \<open>i\<close> without error and returns at entry \<open>i\<close>: the outcome is the outcome of that
  entry, whatever the entries after it (the list \<open>post\<close>) are, so they are never
  consulted. On success \<open>Name\<close> is the name entry \<open>i\<close> gives. When the builder
  implements \<open>ConfigParser\<close> and \<open>ParseConfig\<close> accepts the entry's raw
  configuration, the call succeeds and \<open>Config\<close> is the parsed configuration. When
  the builder does not implement \<open>ConfigParser\<close>, the call succeeds and \<open>Config\<close>
  is left as the receiver held it.
\<close>

theorem UnmarshalJSON_first_registered:
  assumes "list_all (unregisteredEntry m) pre" and "balancer_Get m name = Some builder"
  shows "UnmarshalJSON m bc (Inr (pre @ [(name, jsonCfg)] # post)) =
       (case builder_ParseConfig builder of
          None \<Rightarrow> (bc\<lparr>Name := name\<rparr>, None)
        | Some parser \<Rightarrow>
            (case parser jsonCfg of
               Inl err \<Rightarrow> (bc\<lparr>Name := name\<rparr>, Some (ParseConfigError name err))
             | Inr cfg \<Rightarrow> (bc\<lparr>Name := name, Config := cfg\<rparr>, None)))
     \<and> UnmarshalJSON m bc (Inr (pre @ [(name, jsonCfg)] # post)) =
       UnmarshalJSON m bc (Inr (pre @ [[(name, jsonCfg)]]))
     \<and> (snd (UnmarshalJSON m bc (Inr (pre @ [(name, jsonCfg)] # post))) = None \<longrightarrow>
          Name (fst (UnmarshalJSON m bc (Inr (pre @ [(name, jsonCfg)] # post)))) = name)
     \<and> (builder_ParseConfig builder = Some parser \<and> parser jsonCfg = Inr cfg \<longrightarrow>
          UnmarshalJSON m bc (Inr (pre @ [(name, jsonCfg)] # post)) =
            (bc\<lparr>Name := name, Config := cfg\<rparr>, None))
     \<and> (builder_ParseConfig builder = None \<longrightarrow>
          UnmarshalJSON m bc (Inr (pre @ [(name, jsonCfg)] # post)) = (bc\<lparr>Name := name\<rparr>, None)
        \<and> Config (fst (UnmarshalJSON m bc (Inr (pre @ [(name, jsonCfg)] # post)))) = Config bc)"
proof -
  note eq = UnmarshalJSON_registered [OF assms, of bc jsonCfg]
  have a: "UnmarshalJSON m bc (Inr (pre @ [(name, jsonCfg)] # post)) =
           UnmarshalJSON m bc (Inr (pre @ [[(name, jsonCfg)]]))"
    by (simp only: eq)
  have b: "Name (fst (UnmarshalJSON m bc (Inr (pre @ [(name, jsonCfg)] # post)))) = name"
    by (simp add: eq split: option.split sum.split)
  have c: "UnmarshalJSON m bc (Inr (pre @ [(name, jsonCfg)] # post)) =
           (bc\<lparr>Name := name, Config := cfg\<rparr>, None)"
    if "builder_ParseConfig builder = Some parser" "parser jsonCfg = Inr cfg"
    using that by (simp add: eq)
  have d: "UnmarshalJSON m bc (Inr (pre @ [(name, jsonCfg)] # post)) = (bc\<lparr>Name := name\<rparr>, None)
           \<and> Config (fst (UnmarshalJSON m bc (Inr (pre @ [(name, jsonCfg)] # post)))) = Config bc"
    if "builder_ParseConfig builder = None"
    using that by (simp add: eq)
  show ?thesis
    using eq [of post] a b c d by blast
qed

theorem UnmarshalJSON_first_registered_witness:
  "list_all (unregisteredEntry exampleRegistry) [[(''unknown_policy'', ''{}'')]]
   \<and> balancer_Get exampleRegistry ''known_policy'' = Some knownBuilder
   \<and> builder_ParseConfig knownBuilder = Some exampleParseConfig
   \<and> exampleParseConfig exampleRawConfig = Inr (Some exampleRawConfig)
   \<and> UnmarshalJSON exampleRegistry zeroBalancerConfig
        (Inr [[(''unknown_policy'', ''{}'')], [(''known_policy'', exampleRawConfig)],
              [(''a'', ''{}''), (''b'', ''{}'')]])
     = (\<lparr>Name = ''known_policy'', Config = Some exampleRawConfig\<rparr>, None)
   \<and> balancer_Get exampleRegistry ''plain_policy'' = Some plainBuilder
   \<and> builder_ParseConfig plainBuilder = None
   \<and> UnmarshalJSON exampleRegistry \<lparr>Name = ''old_policy'', Config = Some ''old''\<rparr>
        (Inr [[(''unknown_policy'', ''{}'')], [(''plain_policy'', ''{}'')],
              [(''known_policy'', ''[]'')]])
     = (\<lparr>Name = ''plain_policy'', Config = Some ''old''\<rparr>, None)"
proof -
  have k: "UnmarshalJSON exampleRegistry zeroBalancerConfig
          (Inr ([[(''unknown_policy'', ''{}'')]] @ [(''known_policy'', exampleRawConfig)]
                # [[(''a'', ''{}''), (''b'', ''{}'')]]))
        = (zeroBalancerConfig\<lparr>Name := ''known_policy'', Config := Some exampleRawConfig\<rparr>, None)"
    using UnmarshalJSON_first_registered [OF unregistered_unknown_policy Get_known_policy,
        where parser = exampleParseConfig and jsonCfg = exampleRawConfig
          and cfg = "Some exampleRawConfig" and bc = zeroBalancerConfig
          and post = "[[(''a'', ''{}''), (''b'', ''{}'')]]"]
      knownBuilder_ParseConfig exampleParseConfig_example
    by blast
  have p: "UnmarshalJSON exampleRegistry \<lparr>Name = ''old_policy'', Config = Some ''old''\<rparr>
          (Inr ([[(''unknown_policy'', ''{}'')]] @ [(''plain_policy'', ''{}'')]
                # [[(''known_policy'', ''[]'')]]))
        = (\<lparr>Name = ''old_policy'', Config = Some ''old''\<rparr>\<lparr>Name := ''plain_policy''\<rparr>, None)"
    using UnmarshalJSON_first_registered [OF unregistered_unknown_policy Get_plain_policy,
        where parser = exampleParseConfig and jsonCfg = "''{}''" and cfg = "Some ''{}''"
          and bc = "\<lparr>Name = ''old_policy'', Config = Some ''old''\<rparr>"
          and post = "[[(''known_policy'', ''[]'')]]"]
      plainBuilder_ParseConfig
    by blast
  show ?thesis
    using k p unregistered_unknown_policy Get_known_policy Get_plain_policy
      knownBuilder_ParseConfig plainBuilder_ParseConfig exampleParseConfig_example
    by (simp add: zeroBalancerConfig_def)
qed

subsection \<open>Entries without exactly one key\<close>

text \<open>
  Claim C2, as stated, at a concrete list: the second entry has two keys, the first
  names the registered policy \<open>plain_policy\<close>, and \<open>UnmarshalJSON\<close> returns no
  error.
\<close>

theorem UnmarshalJSON_malformed_entry_counterexample:
  "length [(''a'', ''{}''), (''b'', ''{}'')] \<noteq> 1
   \<and> UnmarshalJSON exampleRegistry zeroBalancerConfig
        (Inr [[(''plain_policy'', ''{}'')], [(''a'', ''{}''), (''b'', ''{}'')]])
     = (\<lparr>Name = ''plain_policy'', Config = None\<rparr>, None)"
  by (simp add: UnmarshalJSON_def rangeLast_single Get_plain_policy plainBuilder_ParseConfig
      zeroBalancerConfig_def)

text \<open>
  Claim C2, amended. The entries are examined in order up to the first one that
  names a registered policy. An entry with more or fewer than one key fails the whole
  list, with an error that carries its index, when every entry before it has exactly
  one key and names an unregistered policy. The entries after the first one-key entry
  of a registered policy are not examined: the outcome is the same without them, so
  an entry there with more or fewer than one key does not fail the list.
\<close>

theorem UnmarshalJSON_malformed_entry:
  assumes "list_all (unregisteredEntry m) pre"
  shows "(length e \<noteq> 1 \<longrightarrow>
            UnmarshalJSON m bc (Inr (pre @ e # post)) =
              (bc, Some (NotExactlyOnePair (length pre) e)))
       \<and> (registeredEntry m e \<longrightarrow>
            UnmarshalJSON m bc (Inr (pre @ e # post)) = UnmarshalJSON m bc (Inr (pre @ [e])))"
proof -
  have bad: "UnmarshalJSON m bc (Inr (pre @ e # post)) =
             (bc, Some (NotExactlyOnePair (length pre) e))" if "length e \<noteq> 1"
    using that by (simp add: UnmarshalJSON_def unmarshalEntries_skip [OF assms])
  have reg: "UnmarshalJSON m bc (Inr (pre @ e # post)) = UnmarshalJSON m bc (Inr (pre @ [e]))"
    if "registeredEntry m e"
  proof -
    from that have len: "length e = 1" and g: "balancer_Get m (entryName e) \<noteq> None"
      by (simp_all add: registeredEntry_def)
    from len obtain name jsonCfg where e: "e = [(name, jsonCfg)]"
      by (cases e) auto
    from g e obtain builder where b: "balancer_Get m name = Some builder"
      by (auto simp: entryName_single)
    show ?thesis
      by (simp only: e UnmarshalJSON_registered [OF assms b])
  qed
  show ?thesis
    using bad reg by blast
qed

theorem UnmarshalJSON_malformed_entry_witness:
  "list_all (unregisteredEntry exampleRegistry) [[(''unknown_policy'', ''{}'')]]
   \<and> length [(''a'', ''{}''), (''b'', ''{}'')] \<noteq> 1
   \<and> UnmarshalJSON exampleRegistry zeroBalancerConfig
        (Inr [[(''unknown_policy'', ''{}'')], [(''a'', ''{}''), (''b'', ''{}'')],
              [(''known_policy'', ''{}'')]])
     = (zeroBalancerConfig, Some (NotExactlyOnePair 1 [(''a'', ''{}''), (''b'', ''{}'')]))
   \<and> registeredEntry exampleRegistry [(''plain_policy'', ''{}'')]
   \<and> UnmarshalJSON exampleRegistry zeroBalancerConfig
        (Inr [[(''unknown_policy'', ''{}'')], [(''plain_policy'', ''{}'')], []])
     = UnmarshalJSON exampleRegistry zeroBalancerConfig
        (Inr [[(''unknown_policy'', ''{}'')], [(''plain_policy'', ''{}'')]])"
proof -
  have reg: "registeredEntry exampleRegistry [(''plain_policy'', ''{}'')]"
    by (simp add: registeredEntry_def entryName_single Get_plain_policy)
  have len: "length [(''a'', ''{}''), (''b'', ''{}'')] \<noteq> 1"
    by simp
  show ?thesis
    using unregistered_unknown_policy reg len
      UnmarshalJSON_malformed_entry [OF unregistered_unknown_policy,
        of "[(''a'', ''{}''), (''b'', ''{}'')]" zeroBalancerConfig "[[(''known_policy'', ''{}'')]]"]
      UnmarshalJSON_malformed_entry [OF unregistered_unknown_policy,
        of "[(''plain_policy'', ''{}'')]" zeroBalancerConfig "[[]]"]
    by simp
qed

subsection \<open>A parser error fails the whole list\<close>

text \<open>
  Claim C3. Let the first registered policy of the list be the entry
  \<open>(name, jsonCfg)\<close>: no entry before it is a one-key entry of a registered policy.
  If its builder implements \<open>ConfigParser\<close> and \<open>ParseConfig\<close> returns an error on
  \<open>jsonCfg\<close>, then \<open>UnmarshalJSON\<close> returns a non-nil error, whatever the entries
  after it are, also when one of them names a registered policy whose configuration
  would parse. When every entry before it has exactly one key, the error returned is
  the parser's error for that policy.
\<close>

theorem UnmarshalJSON_parser_error:
  assumes "list_all (\<lambda>e. \<not> registeredEntry m e) pre"
    and "balancer_Get m name = Some builder"
    and "builder_ParseConfig builder = Some parser"
    and "parser jsonCfg = Inl err"
  shows "snd (UnmarshalJSON m bc (Inr (pre @ [(name, jsonCfg)] # post))) \<noteq> None
       \<and> (list_all (unregisteredEntry m) pre \<longrightarrow>
            snd (UnmarshalJSON m bc (Inr (pre @ [(name, jsonCfg)] # post))) =
              Some (ParseConfigError name err))"
proof -
  have "unmarshalEntries m (0 + length pre) bc ([(name, jsonCfg)] # post) =
        (bc\<lparr>Name := name\<rparr>, Some (ParseConfigError name err))"
    by (simp only: unmarshalEntries_registered [OF assms(2)] assms(3) assms(4)
        option.case sum.case)
  then have "snd (unmarshalEntries m (0 + length pre) bc ([(name, jsonCfg)] # post)) \<noteq> None"
    by simp
  from unmarshalEntries_error_before [OF assms(1) this]
  have nonnil: "snd (UnmarshalJSON m bc (Inr (pre @ [(name, jsonCfg)] # post))) \<noteq> None"
    by (simp add: UnmarshalJSON_def)
  have perr: "snd (UnmarshalJSON m bc (Inr (pre @ [(name, jsonCfg)] # post))) =
              Some (ParseConfigError name err)"
    if "list_all (unregisteredEntry m) pre"
    by (simp only: UnmarshalJSON_registered [OF that assms(2)] assms(3) assms(4)
        option.case sum.case snd_conv)
  show ?thesis
    using nonnil perr by blast
qed

theorem UnmarshalJSON_parser_error_witness:
  "list_all (\<lambda>e. \<not> registeredEntry exampleRegistry e) [[(''unknown_policy'', ''{}'')]]
   \<and> list_all (unregisteredEntry exampleRegistry) [[(''unknown_policy'', ''{}'')]]
   \<and> balancer_Get exampleRegistry ''known_policy'' = Some knownBuilder
   \<and> builder_ParseConfig knownBuilder = Some exampleParseConfig
   \<and> exampleParseConfig ''[]'' = Inl ''not an object''
   \<and> balancer_Get exampleRegistry ''plain_policy'' = Some plainBuilder
   \<and> snd (UnmarshalJSON exampleRegistry zeroBalancerConfig
        (Inr [[(''unknown_policy'', ''{}'')], [(''known_policy'', ''[]'')],
              [(''plain_policy'', ''{}'')]])) \<noteq> None
   \<and> snd (UnmarshalJSON exampleRegistry zeroBalancerConfig
        (Inr [[(''unknown_policy'', ''{}'')], [(''known_policy'', ''[]'')],
              [(''plain_policy'', ''{}'')]]))
     = Some (ParseConfigError ''known_policy'' ''not an object'')"
proof -
  have pre: "list_all (\<lambda>e. \<not> registeredEntry exampleRegistry e)
     [[(''unknown_policy'', ''{}'')]]"
    by (simp add: registeredEntry_def entryName_single Get_unknown_policy)
  have perr: "exampleParseConfig ''[]'' = Inl ''not an object''"
    by (simp add: exampleParseConfig_def)
  have r: "snd (UnmarshalJSON exampleRegistry zeroBalancerConfig
        (Inr ([[(''unknown_policy'', ''{}'')]] @ [(''known_policy'', ''[]'')]
              # [[(''plain_policy'', ''{}'')]]))) \<noteq> None
     \<and> snd (UnmarshalJSON exampleRegistry zeroBalancerConfig
        (Inr ([[(''unknown_policy'', ''{}'')]] @ [(''known_policy'', ''[]'')]
              # [[(''plain_policy'', ''{}'')]])))
       = Some (ParseConfigError ''known_policy'' ''not an object'')"
    using UnmarshalJSON_parser_error [OF pre Get_known_policy knownBuilder_ParseConfig perr,
        where bc = zeroBalancerConfig and post = "[[(''plain_policy'', ''{}'')]]"]
      unregistered_unknown_policy
    by blast
  show ?thesis
    using r pre perr unregistered_unknown_policy Get_known_policy Get_plain_policy
      knownBuilder_ParseConfig
    by simp
qed

text \<open>
  Claim C9. On the parser-error path (every entry before the first registered policy
  has exactly one key and names an unregistered policy, the builder of that policy
  implements \<open>ConfigParser\<close> and \<open>ParseConfig\<close> fails), \<open>UnmarshalJSON\<close> returns a
  non-nil error after it has stored the policy's name in the receiver: \<open>Name\<close> is the
  policy's name, \<open>Config\<close> is what it was, and the receiver is not what it was before
  the call unless it already held that name.
\<close>

theorem UnmarshalJSON_not_atomic:
  assumes "list_all (unregisteredEntry m) pre"
    and "balancer_Get m name = Some builder"
    and "builder_ParseConfig builder = Some parser"
    and "parser jsonCfg = Inl err"
  shows "UnmarshalJSON m bc (Inr (pre @ [(name, jsonCfg)] # post)) =
           (bc\<lparr>Name := name\<rparr>, Some (ParseConfigError name err))
       \<and> snd (UnmarshalJSON m bc (Inr (pre @ [(name, jsonCfg)] # post))) \<noteq> None
       \<and> Name (fst (UnmarshalJSON m bc (Inr (pre @ [(name, jsonCfg)] # post)))) = name
       \<and> Config (fst (UnmarshalJSON m bc (Inr (pre @ [(name, jsonCfg)] # post)))) = Config bc
       \<and> (Name bc \<noteq> name \<longrightarrow>
            fst (UnmarshalJSON m bc (Inr (pre @ [(name, jsonCfg)] # post))) \<noteq> bc)"
proof -
  have eq: "UnmarshalJSON m bc (Inr (pre @ [(name, jsonCfg)] # post)) =
            (bc\<lparr>Name := name\<rparr>, Some (ParseConfigError name err))"
    by (simp only: UnmarshalJSON_registered [OF assms(1,2)] assms(3) assms(4)
        option.case sum.case)
  have "bc\<lparr>Name := name\<rparr> \<noteq> bc" if "Name bc \<noteq> name"
  proof
    assume "bc\<lparr>Name := name\<rparr> = bc"
    then have "Name (bc\<lparr>Name := name\<rparr>) = Name bc"
      by simp
    with that show False
      by simp
  qed
  then show ?thesis
    by (simp add: eq)
qed

theorem UnmarshalJSON_not_atomic_witness:
  "list_all (unregisteredEntry exampleRegistry) [[(''unknown_policy'', ''{}'')]]
   \<and> balancer_Get exampleRegistry ''known_policy'' = Some knownBuilder
   \<and> builder_ParseConfig knownBuilder = Some exampleParseConfig
   \<and> exampleParseConfig ''[]'' = Inl ''not an object''
   \<and> UnmarshalJSON exampleRegistry \<lparr>Name = ''old_policy'', Config = Some ''old''\<rparr>
        (Inr [[(''unknown_policy'', ''{}'')], [(''known_policy'', ''[]'')],
              [(''plain_policy'', ''{}'')]])
     = (\<lparr>Name = ''known_policy'', Config = Some ''old''\<rparr>,
        Some (ParseConfigError ''known_policy'' ''not an object''))"
proof -
  have perr: "exampleParseConfig ''[]'' = Inl ''not an object''"
    by (simp add: exampleParseConfig_def)
  show ?thesis
    using unregistered_unknown_policy perr Get_known_policy knownBuilder_ParseConfig
      UnmarshalJSON_not_atomic [OF unregistered_unknown_policy Get_known_policy
        knownBuilder_ParseConfig perr,
        of "\<lparr>Name = ''old_policy'', Config = Some ''old''\<rparr>" "[[(''plain_policy'', ''{}'')]]"]
    by simp
qed

subsection \<open>No supported policy\<close>

text \<open>
  Claim C6. When every entry of the list has exactly one key and none names a
  registered policy, the empty list included, \<open>UnmarshalJSON\<close> returns the non-nil
  error that no supported policy was found, and leaves the receiver as it was.
\<close>

theorem UnmarshalJSON_no_supported_policy:
  assumes "list_all (unregisteredEntry m) ir"
  shows "UnmarshalJSON m bc (Inr ir) = (bc, Some NoSupportedPolicies)
       \<and> snd (UnmarshalJSON m bc (Inr ir)) \<noteq> None"
proof -
  have "unmarshalEntries m 0 bc (ir @ []) = unmarshalEntries m (0 + length ir) bc []"
    by (rule unmarshalEntries_skip [OF assms])
  then show ?thesis
    by (simp add: UnmarshalJSON_def)
qed

theorem UnmarshalJSON_no_supported_policy_witness:
  "list_all (unregisteredEntry exampleRegistry) [[(''unknown_policy'', ''{}'')]]
   \<and> UnmarshalJSON exampleRegistry zeroBalancerConfig (Inr [[(''unknown_policy'', ''{}'')]])
     = (zeroBalancerConfig, Some NoSupportedPolicies)
   \<and> list_all (unregisteredEntry exampleRegistry) []
   \<and> UnmarshalJSON exampleRegistry zeroBalancerConfig (Inr [])
     = (zeroBalancerConfig, Some NoSupportedPolicies)"
proof -
  have emp: "list_all (unregisteredEntry exampleRegistry) []"
    by simp
  show ?thesis
    using unregistered_unknown_policy emp
      UnmarshalJSON_no_supported_policy [OF unregistered_unknown_policy, of zeroBalancerConfig]
      UnmarshalJSON_no_supported_policy [OF emp, of zeroBalancerConfig]
    by simp
qed

end
